theory Spec2Isabelle
  imports Main
begin

section \<open>Task-scoped transaction stacks of \<^verbatim>\<open>tortoise/transactions.py\<close>\<close>

subsection \<open>Data model\<close>

text \<open>
  Exceptions are values. \<open>ParamsError\<close> carries the list that the message of line 23
  renders after its fixed text (\<open>list(Tortoise._connections.keys())\<close>); \<open>KeyError\<close>
  carries the missing key of a plain dict lookup; \<open>IndexError\<close> is what
  \<open>deque.pop()\<close> raises on an empty deque; \<open>RuntimeError\<close> is what
  \<open>asyncio.get_event_loop()\<close> raises when the thread has no current event loop and what
  \<open>asyncio.current_task()\<close> raises when no event loop is running; \<open>TypeError\<close> is
  what \<open>await\<close> raises on a value that cannot be awaited; \<open>Failure\<close> is any other
  exception, identified by its content.
\<close>

datatype error =
  ParamsError "string list" | KeyError string | IndexError | RuntimeError | TypeError
  | Failure string

text \<open>
  \<open>Tortoise._connections\<close> is a dict from names to connection objects. It is kept as the
  list of its items in insertion order (keys pairwise distinct), because line 27 takes the
  first key. \<open>current_transaction_map\<close> is a \<open>defaultdict\<close> from keys to deques; a deque
  is a list whose right end (\<open>append\<close>, \<open>pop\<close>, \<open>[-1]\<close>) is the last element.
\<close>

type_synonym 'c connections = "(string \<times> 'c) list"

type_synonym 'c tmap = "string \<rightharpoonup> 'c list"

text \<open>
  The event loop of the calling thread: the thread has no current event loop
  (a worker thread, or the main thread after \<open>asyncio.run()\<close> has returned), it has one
  that is not running, or it has one that is running.
\<close>

datatype loop_state = NoLoop | Idle | Running

text \<open>
  What the functions read from outside: the connection registry, the event loop of the
  thread, and the value of \<open>id(asyncio.current_task())\<close> while the loop is running,
  a non-negative integer.
\<close>

record 'c env =
  connections :: "'c connections"
  loop :: loop_state
  current_task :: nat

definition loop_running :: "'c env \<Rightarrow> bool" where
  "loop_running e = (loop e = Running)"

subsection \<open>Primitives of the Python runtime\<close>

text \<open>\<open>str\<close> of a non-negative integer: its decimal digits, most significant first.\<close>

definition digit :: "nat \<Rightarrow> char" where
  "digit d = ''0123456789'' ! d"

fun str_nat :: "nat \<Rightarrow> string" where
  "str_nat n = (if n < 10 then [digit n] else str_nat (n div 10) @ [digit (n mod 10)])"

declare str_nat.simps [simp del]

text \<open>
  \<open>id(asyncio.current_task())\<close>: \<open>current_task\<close> asks for the running loop and raises
  \<open>RuntimeError\<close> when there is none.
\<close>

definition current_task_id :: "'c env \<Rightarrow> error + nat" where
  "current_task_id e = (if loop_running e then Inr (current_task e) else Inl RuntimeError)"

text \<open>\<open>d[k]\<close> on a plain dict raises \<open>KeyError\<close> for a missing key.\<close>

definition getitem :: "'c connections \<Rightarrow> string \<Rightarrow> error + 'c" where
  "getitem d k = (case map_of d k of None \<Rightarrow> Inl (KeyError k) | Some c \<Rightarrow> Inr c)"

text \<open>
  \<open>d[k]\<close> on the \<open>defaultdict\<close> of line 8: a missing key is first bound to a new empty
  deque, which is then returned. The updated mapping is returned with the value.
\<close>

definition dd_getitem :: "'c tmap \<Rightarrow> string \<Rightarrow> 'c list \<times> 'c tmap" where
  "dd_getitem m k = (case m k of None \<Rightarrow> ([], m(k \<mapsto> [])) | Some s \<Rightarrow> (s, m))"

subsection \<open>The functions of the module\<close>

text \<open>Lines 33, 41 and 46: \<open>connection_name + str(id(...))\<close>, plain concatenation.\<close>

definition make_key :: "string \<Rightarrow> nat \<Rightarrow> string" where
  "make_key connection_name task = connection_name @ str_nat task"

text \<open>
  Lines 20 to 27. \<open>not connection_name\<close> holds for \<open>None\<close> and for the empty string.
  Then the name is the first key of the registry when it has exactly one entry, and
  \<open>ParamsError\<close> is raised otherwise.
\<close>

definition infer_name :: "'c connections \<Rightarrow> error + string" where
  "infer_name conns =
     (if length conns \<noteq> 1 then Inl (ParamsError (map fst conns))
      else (case conns of [] \<Rightarrow> Inl IndexError | (k, _) # _ \<Rightarrow> Inr k))"

fun resolve_name :: "'c connections \<Rightarrow> string option \<Rightarrow> error + string" where
  "resolve_name conns None = infer_name conns"
| "resolve_name conns (Some s) = (if s = [] then infer_name conns else Inr s)"

text \<open>
  \<open>get_connection\<close>, lines 17 to 37. The result is paired with the transaction map as
  the call leaves it: \<open>key in current_transaction_map\<close> does not touch the map, each
  \<open>current_transaction_map[key]\<close> goes through \<open>dd_getitem\<close>. On line 29,
  \<open>asyncio.get_event_loop()\<close> raises \<open>RuntimeError\<close> when the thread has no current
  event loop; otherwise \<open>is_running()\<close> tells whether that loop is running.
\<close>

definition get_connection :: "'c env \<Rightarrow> 'c tmap \<Rightarrow> string option \<Rightarrow> (error + 'c) \<times> 'c tmap" where
  "get_connection e m connection_name =
     (case resolve_name (connections e) connection_name of
        Inl err \<Rightarrow> (Inl err, m)
      | Inr name \<Rightarrow>
          (case loop e of
             NoLoop \<Rightarrow> (Inl RuntimeError, m)
           | Idle \<Rightarrow> (getitem (connections e) name, m)
           | Running \<Rightarrow>
               (case current_task_id e of
                  Inl err \<Rightarrow> (Inl err, m)
                | Inr task \<Rightarrow>
                    let key = make_key name task in
                    if m key \<noteq> None then
                      (case dd_getitem m key of
                         (s, m1) \<Rightarrow>
                           if s \<noteq> [] then
                             (case dd_getitem m1 key of (s2, m2) \<Rightarrow> (Inr (last s2), m2))
                           else (getitem (connections e) name, m1))
                    else (getitem (connections e) name, m))))"

text \<open>\<open>push_transaction\<close>, lines 40 to 42.\<close>

definition push_transaction :: "'c env \<Rightarrow> string \<Rightarrow> 'c \<Rightarrow> 'c tmap \<Rightarrow> (error + unit) \<times> 'c tmap" where
  "push_transaction e connection_name connection m =
     (case current_task_id e of
        Inl err \<Rightarrow> (Inl err, m)
      | Inr task \<Rightarrow>
          let key = make_key connection_name task in
          (case dd_getitem m key of (s, m1) \<Rightarrow> (Inr (), m1(key \<mapsto> s @ [connection]))))"

text \<open>
  \<open>pop_transaction\<close>, lines 45 to 51. Line 47 looks the key up through the
  \<open>defaultdict\<close> before \<open>deque.pop()\<close> can raise; lines 50 and 51 run only after a
  successful pop.
\<close>

definition pop_transaction :: "'c env \<Rightarrow> string \<Rightarrow> 'c tmap \<Rightarrow> (error + unit) \<times> 'c tmap" where
  "pop_transaction e connection_name m =
     (case current_task_id e of
        Inl err \<Rightarrow> (Inl err, m)
      | Inr task \<Rightarrow>
          let key = make_key connection_name task in
          (case dd_getitem m key of
             (s, m1) \<Rightarrow>
               if s = [] then (Inl IndexError, m1)
               else
                 let m2 = m1(key \<mapsto> butlast s) in
                 (case dd_getitem m2 key of
                    (s', m3) \<Rightarrow>
                      if s' = [] then (Inr (), m3(key := None)) else (Inr (), m3))))"

subsection \<open>Transaction scopes and the \<open>atomic\<close> decorator\<close>

text \<open>
  The class behind \<open>connection._in_transaction()\<close> (its \<open>__aenter__\<close> and
  \<open>__aexit__\<close>) and the connection objects live in \<open>tortoise.backends\<close>, outside this
  module. They are modelled from sections 4.2 and 6 of the specification.
\<close>












subsection \<open>Sequences of operations and sample inputs\<close>

text \<open>The stack under a key, empty when the key is absent.\<close>

definition stack_of :: "'c tmap \<Rightarrow> string \<Rightarrow> 'c list" where
  "stack_of m k = (case m k of None \<Rightarrow> [] | Some s \<Rightarrow> s)"

text \<open>Pushing a list of handles one after the other, and popping \<open>k\<close> times; both stop at
  the first exception.\<close>

fun pushes :: "'c env \<Rightarrow> string \<Rightarrow> 'c list \<Rightarrow> 'c tmap \<Rightarrow> (error + unit) \<times> 'c tmap" where
  "pushes e n [] m = (Inr (), m)"
| "pushes e n (c # cs) m =
     (case push_transaction e n c m of
        (Inl err, m') \<Rightarrow> (Inl err, m')
      | (Inr _, m') \<Rightarrow> pushes e n cs m')"

fun pops :: "'c env \<Rightarrow> string \<Rightarrow> nat \<Rightarrow> 'c tmap \<Rightarrow> (error + unit) \<times> 'c tmap" where
  "pops e n 0 m = (Inr (), m)"
| "pops e n (Suc k) m =
     (case pop_transaction e n m of
        (Inl err, m') \<Rightarrow> (Inl err, m')
      | (Inr _, m') \<Rightarrow> pops e n k m')"

definition e0 :: "nat env" where
  "e0 = \<lparr>connections = [(''default'', 0)], loop = Running, current_task = 7\<rparr>"

definition e_none :: "nat env" where
  "e_none = \<lparr>connections = [], loop = Idle, current_task = 0\<rparr>"

definition e_one :: "nat env" where
  "e_one = \<lparr>connections = [(''default'', 1)], loop = Idle, current_task = 0\<rparr>"

definition e_no_loop :: "nat env" where
  "e_no_loop = \<lparr>connections = [(''default'', 1)], loop = NoLoop, current_task = 0\<rparr>"

definition e_two :: "nat env" where
  "e_two = \<lparr>connections = [(''a'', 1), (''b'', 2)], loop = Idle, current_task = 0\<rparr>"

text \<open>Two tasks of one program with the connections \<open>db\<close> and \<open>db1\<close>.\<close>

definition task_a :: "nat env" where
  "task_a = \<lparr>connections = [(''db'', 0), (''db1'', 1)], loop = Running,
     current_task = 40234567890128\<rparr>"

definition task_b :: "nat env" where
  "task_b = \<lparr>connections = [(''db'', 0), (''db1'', 1)], loop = Running,
     current_task = 140234567890128\<rparr>"







section \<open>Properties\<close>

subsection \<open>The operations in closed form\<close>

lemma dd_getitem_present: "m k = Some s \<Longrightarrow> dd_getitem m k = (s, m)"
  by (simp add: dd_getitem_def)

lemma current_task_id_running: "loop_running e \<Longrightarrow> current_task_id e = Inr (current_task e)"
  by (simp add: current_task_id_def)

lemma loop_cases:
  obtains (running) "loop_running e" | (idle) "loop e = Idle" | (no_loop) "loop e = NoLoop"
  by (cases "loop e") (auto simp: loop_running_def)

lemma get_connection_running:
  assumes "resolve_name (connections e) cn = Inr n" and "loop_running e"
  shows "get_connection e m cn =
    (if stack_of m (make_key n (current_task e)) \<noteq> []
     then Inr (last (stack_of m (make_key n (current_task e))))
     else getitem (connections e) n, m)"
proof -
  from assms(2) have "loop e = Running"
    by (simp add: loop_running_def)
  with assms show ?thesis
    by (auto simp: get_connection_def Let_def stack_of_def dd_getitem_present
          current_task_id_running)
qed

lemma get_connection_idle:
  assumes "resolve_name (connections e) cn = Inr n" and "loop e = Idle"
  shows "get_connection e m cn = (getitem (connections e) n, m)"
  using assms by (simp add: get_connection_def)

lemma get_connection_without_loop:
  assumes "resolve_name (connections e) cn = Inr n" and "loop e = NoLoop"
  shows "get_connection e m cn = (Inl RuntimeError, m)"
  using assms by (simp add: get_connection_def)

lemma push_transaction_eq:
  assumes "loop_running e"
  shows "push_transaction e n c m =
     (Inr (), m(make_key n (current_task e) \<mapsto> stack_of m (make_key n (current_task e)) @ [c]))"
  using assms
  by (cases "m (make_key n (current_task e))")
     (simp_all add: push_transaction_def Let_def stack_of_def dd_getitem_def
        current_task_id_running)

lemma pop_transaction_nonempty:
  assumes "loop_running e" and "m (make_key n (current_task e)) = Some s" and "s \<noteq> []"
  shows "pop_transaction e n m =
    (Inr (), if butlast s = [] then m(make_key n (current_task e) := None)
             else m(make_key n (current_task e) \<mapsto> butlast s))"
  using assms
  by (simp add: pop_transaction_def Let_def dd_getitem_def current_task_id_running)

lemma pop_transaction_empty:
  assumes "loop_running e" and "stack_of m (make_key n (current_task e)) = []"
  shows "pop_transaction e n m = (Inl IndexError, m(make_key n (current_task e) \<mapsto> []))"
  using assms
  by (cases "m (make_key n (current_task e))")
     (simp_all add: pop_transaction_def Let_def dd_getitem_def stack_of_def fun_upd_idem
        current_task_id_running)

lemma stack_of_upd: "stack_of (m(k \<mapsto> s)) k = s"
  by (simp add: stack_of_def)

lemma pop_transaction_last:
  assumes "loop_running e" and "m (make_key n (current_task e)) = Some [c]"
  shows "pop_transaction e n m = (Inr (), m(make_key n (current_task e) := None))"
  using assms
  by (simp add: pop_transaction_def Let_def dd_getitem_def current_task_id_running)

lemma pop_transaction_more:
  assumes "loop_running e" and "m (make_key n (current_task e)) = Some (s @ [c])" and "s \<noteq> []"
  shows "pop_transaction e n m = (Inr (), m(make_key n (current_task e) \<mapsto> s))"
  using assms
  by (simp add: pop_transaction_def Let_def dd_getitem_def current_task_id_running)

lemma pushes_nonempty:
  assumes "loop_running e" and "cs \<noteq> []"
  shows "pushes e n cs m =
     (Inr (), m(make_key n (current_task e) \<mapsto> stack_of m (make_key n (current_task e)) @ cs))"
  using assms(2)
proof (induction cs arbitrary: m)
  case Nil
  then show ?case by simp
next
  case (Cons c cs)
  let ?k = "make_key n (current_task e)"
  let ?m1 = "m(?k \<mapsto> stack_of m ?k @ [c])"
  have step: "pushes e n (c # cs) m = pushes e n cs ?m1"
    by (simp add: push_transaction_eq [OF assms(1)])
  have "pushes e n cs ?m1 = (Inr (), m(?k \<mapsto> stack_of m ?k @ c # cs))"
  proof (cases "cs = []")
    case True
    then show "pushes e n cs ?m1 = (Inr (), m(?k \<mapsto> stack_of m ?k @ c # cs))"
      by simp
  next
    case False
    then have "pushes e n cs ?m1 = (Inr (), ?m1(?k \<mapsto> stack_of ?m1 ?k @ cs))"
      by (rule Cons.IH)
    then show "pushes e n cs ?m1 = (Inr (), m(?k \<mapsto> stack_of m ?k @ c # cs))"
      by (simp add: stack_of_upd)
  qed
  with step show "pushes e n (c # cs) m = (Inr (), m(?k \<mapsto> stack_of m ?k @ c # cs))"
    by simp
qed

text \<open>Popping as many handles as were appended to a stack \<open>s\<close> gives \<open>s\<close> back, and
  removes the key when \<open>s\<close> is empty and something was appended.\<close>

lemma pops_stack:
  assumes "loop_running e"
  shows "pops e n (length cs) (m(make_key n (current_task e) \<mapsto> s @ cs)) =
     (Inr (), m(make_key n (current_task e) := (if s = [] \<and> cs \<noteq> [] then None else Some s)))"
proof (induction cs rule: rev_induct)
  case Nil
  show "pops e n (length []) (m(make_key n (current_task e) \<mapsto> s @ [])) =
     (Inr (), m(make_key n (current_task e) := (if s = [] \<and> [] \<noteq> [] then None else Some s)))"
    by simp
next
  case (snoc c cs)
  let ?k = "make_key n (current_task e)"
  have ih: "pops e n (length cs) (m(?k \<mapsto> s @ cs)) =
      (Inr (), m(?k := (if s = [] \<and> cs \<noteq> [] then None else Some s)))"
    by (rule snoc.IH)
  show "pops e n (length (cs @ [c])) (m(?k \<mapsto> s @ cs @ [c])) =
     (Inr (), m(?k := (if s = [] \<and> cs @ [c] \<noteq> [] then None else Some s)))"
  proof (cases "s @ cs = []")
    case True
    have "pop_transaction e n (m(?k \<mapsto> [c])) = (Inr (), (m(?k \<mapsto> [c]))(?k := None))"
      using assms by (rule pop_transaction_last) simp
    with True show ?thesis by simp
  next
    case False
    have "pop_transaction e n (m(?k \<mapsto> (s @ cs) @ [c])) =
        (Inr (), (m(?k \<mapsto> (s @ cs) @ [c]))(?k \<mapsto> s @ cs))"
      using assms by (rule pop_transaction_more) (use False in simp_all)
    then have "pops e n (length (cs @ [c])) (m(?k \<mapsto> s @ cs @ [c])) =
        pops e n (length cs) (m(?k \<mapsto> s @ cs))"
      by simp
    with ih False show ?thesis
      by (cases "s = []") simp_all
  qed
qed

subsection \<open>Resolution\<close>

text \<open>
  C1. While the event loop is running, \<open>get_connection\<close> returns the top (the most
  recently pushed handle) of the stack under the key of the resolved name and the current
  task when that stack exists and is not empty. When the key is absent or its stack is
  empty, it returns what the connection registry holds under the resolved name, which is
  the base connection when the name is registered.
\<close>

theorem get_connection_top_or_base:
  assumes "resolve_name (connections e) cn = Inr n" and "loop_running e"
  shows "(\<forall>s. m (make_key n (current_task e)) = Some s \<and> s \<noteq> [] \<longrightarrow>
            get_connection e m cn = (Inr (last s), m)) \<and>
         (m (make_key n (current_task e)) = None \<or> m (make_key n (current_task e)) = Some [] \<longrightarrow>
            get_connection e m cn = (getitem (connections e) n, m)) \<and>
         (\<forall>c. map_of (connections e) n = Some c \<longrightarrow> getitem (connections e) n = Inr c)"
  using get_connection_running [OF assms, of m]
  by (auto simp: stack_of_def getitem_def)

theorem get_connection_top_or_base_witness:
  "get_connection e0 [make_key ''default'' 7 \<mapsto> [10, 11]] (Some ''default'') =
     (Inr 11, [make_key ''default'' 7 \<mapsto> [10, 11]]) \<and>
   get_connection e0 Map.empty None = (Inr 0, Map.empty)"
proof -
  have r1: "resolve_name (connections e0) (Some ''default'') = Inr ''default''"
    by simp
  have r2: "resolve_name (connections e0) None = Inr ''default''"
    by (simp add: e0_def infer_name_def)
  have l: "loop_running e0"
    by (simp add: e0_def loop_running_def)
  have k: "current_task e0 = 7" "map_of (connections e0) ''default'' = Some 0"
    by (simp_all add: e0_def)
  show ?thesis
    using get_connection_top_or_base [OF r1 l, of "[make_key ''default'' 7 \<mapsto> [10, 11]]"]
      get_connection_top_or_base [OF r2 l, of Map.empty] k
    by simp
qed

text \<open>
  C7, as amended. While the thread has a current event loop that is not running,
  \<open>get_connection\<close> returns what the connection registry holds under the resolved
  name, whatever the transaction map contains: the base connection when the name is
  registered. While the thread has no current event loop at all, it raises
  \<open>RuntimeError\<close> for every resolved name.
\<close>

theorem get_connection_no_loop:
  assumes "resolve_name (connections e) cn = Inr n"
  shows "(loop e = Idle \<longrightarrow>
            get_connection e m cn = (getitem (connections e) n, m) \<and>
            (\<forall>c. map_of (connections e) n = Some c \<longrightarrow> get_connection e m cn = (Inr c, m))) \<and>
         (loop e = NoLoop \<longrightarrow> get_connection e m cn = (Inl RuntimeError, m))"
  using get_connection_idle [OF assms, of m] get_connection_without_loop [OF assms, of m]
  by (simp add: getitem_def)

theorem get_connection_no_loop_witness:
  "get_connection e_one [make_key ''default'' 0 \<mapsto> [10, 11]] (Some ''default'') =
     (Inr 1, [make_key ''default'' 0 \<mapsto> [10, 11]]) \<and>
   get_connection e_no_loop [make_key ''default'' 0 \<mapsto> [10, 11]] (Some ''default'') =
     (Inl RuntimeError, [make_key ''default'' 0 \<mapsto> [10, 11]])"
proof -
  have r: "resolve_name (connections e_one) (Some ''default'') = Inr ''default''"
    and r': "resolve_name (connections e_no_loop) (Some ''default'') = Inr ''default''"
    by simp_all
  have l: "loop e_one = Idle" and k: "map_of (connections e_one) ''default'' = Some 1"
    and l': "loop e_no_loop = NoLoop"
    by (simp_all add: e_one_def e_no_loop_def)
  show ?thesis
    using get_connection_no_loop [OF r, of "[make_key ''default'' 0 \<mapsto> [10, 11]]"]
      get_connection_no_loop [OF r', of "[make_key ''default'' 0 \<mapsto> [10, 11]]"] l l' k
    by (simp add: getitem_def)
qed

text \<open>
  C7 as stated fails in a thread that has no current event loop: no loop is running,
  the name is registered, and \<open>get_connection\<close> raises \<open>RuntimeError\<close> instead of
  returning the base connection.
\<close>

theorem get_connection_no_loop_counterexample:
  "\<not> loop_running e_no_loop \<and>
   getitem (connections e_no_loop) ''default'' = Inr 1 \<and>
   fst (get_connection e_no_loop Map.empty (Some ''default'')) = Inl RuntimeError"
  by (simp add: get_connection_def e_no_loop_def getitem_def loop_running_def)

text \<open>
  C8. \<open>get_connection\<close> leaves the transaction map as it found it on every path:
  the map paired with the result is the map the call was given.
\<close>

theorem get_connection_frame: "snd (get_connection e m connection_name) = m"
  by (auto simp: get_connection_def Let_def dd_getitem_present
        split: sum.splits loop_state.splits)

text \<open>
  C3, as amended. With the name omitted (\<open>None\<close>, or the empty string),
  \<open>get_connection\<close> raises \<open>ParamsError\<close> exactly when the number of registered
  connections is not one, zero included, and the error lists the registered names. With
  exactly one registered connection it takes that name and behaves as if the name had
  been given.
\<close>

theorem omitted_name:
  assumes "cn = None \<or> cn = Some []"
  shows "((\<exists>ns. fst (get_connection e m cn) = Inl (ParamsError ns)) \<longleftrightarrow>
            length (connections e) \<noteq> 1) \<and>
         (length (connections e) \<noteq> 1 \<longrightarrow>
            get_connection e m cn = (Inl (ParamsError (map fst (connections e))), m)) \<and>
         (\<forall>k c. connections e = [(k, c)] \<longrightarrow>
            resolve_name (connections e) cn = Inr k \<and>
            get_connection e m cn = get_connection e m (Some k))"
proof -
  have r: "resolve_name (connections e) cn = infer_name (connections e)"
    using assms by auto
  have many: "get_connection e m cn = (Inl (ParamsError (map fst (connections e))), m)"
    if "length (connections e) \<noteq> 1"
    using that by (simp add: get_connection_def r infer_name_def)
  have one: "resolve_name (connections e) cn = Inr k \<and>
      get_connection e m cn = get_connection e m (Some k) \<and>
      (\<forall>ns. fst (get_connection e m cn) \<noteq> Inl (ParamsError ns))"
    if "connections e = [(k, c)]" for k c
  proof -
    have a: "resolve_name (connections e) cn = Inr k"
      using that r by (simp add: infer_name_def)
    have b: "resolve_name (connections e) (Some k) = Inr k"
      using that by (simp add: infer_name_def)
    have g: "getitem (connections e) k = Inr c"
      using that by (simp add: getitem_def)
    have "get_connection e m cn = get_connection e m (Some k)"
      by (cases e rule: loop_cases)
         (simp_all add: get_connection_running [OF a] get_connection_running [OF b]
            get_connection_idle [OF a] get_connection_idle [OF b]
            get_connection_without_loop [OF a] get_connection_without_loop [OF b])
    moreover have "fst (get_connection e m cn) \<noteq> Inl (ParamsError ns)" for ns
      by (cases e rule: loop_cases)
         (simp_all add: get_connection_running [OF a] get_connection_idle [OF a]
            get_connection_without_loop [OF a] g)
    ultimately show ?thesis using a by simp
  qed
  show ?thesis
  proof (cases "length (connections e) = 1")
    case True
    then have "\<exists>k c. connections e = [(k, c)]"
      by (cases "connections e") auto
    then obtain k c where kc: "connections e = [(k, c)]"
      by blast
    from one [OF kc] kc show ?thesis by auto
  next
    case False
    then have "connections e \<noteq> [(k, c)]" for k c
      by auto
    with many [OF False] False show ?thesis by simp
  qed
qed

theorem omitted_name_witness:
  "get_connection e_two Map.empty None = (Inl (ParamsError [''a'', ''b'']), Map.empty) \<and>
   get_connection e_one Map.empty (Some []) = (Inr 1, Map.empty)"
proof -
  have "get_connection e_one Map.empty (Some ''default'') = (Inr 1, Map.empty)"
    by (simp add: get_connection_def e_one_def getitem_def)
  then show ?thesis
    using omitted_name [of None e_two Map.empty] omitted_name [of "Some []" e_one Map.empty]
    by (simp add: e_two_def e_one_def)
qed

text \<open>
  C3 as stated fails where no connection is registered: the name is omitted, not more
  than one connection is registered, and \<open>ParamsError\<close> is raised all the same.
\<close>

theorem omitted_name_counterexample:
  "fst (get_connection e_none Map.empty None) = Inl (ParamsError []) \<and>
   \<not> 1 < length (connections e_none)"
  by (simp add: get_connection_def infer_name_def e_none_def)




subsection \<open>Keys\<close>

text \<open>The decimal rendering is injective, so under one name two tasks never share a key.\<close>

lemma digit_inj: "a < 10 \<Longrightarrow> b < 10 \<Longrightarrow> digit a = digit b \<Longrightarrow> a = b"
proof -
  assume a: "a < 10" and b: "b < 10" and d: "digit a = digit b"
  have cases: "x < 10 \<Longrightarrow> x \<in> {0, 1, 2, 3, 4, 5, 6, 7, 8, 9}" for x :: nat
    by auto
  from cases [OF a] cases [OF b] d show ?thesis
    by (auto simp: digit_def)
qed

lemma str_nat_nonempty: "str_nat n \<noteq> []"
  by (subst str_nat.simps) simp

lemma str_nat_inj: "str_nat a = str_nat b \<Longrightarrow> a = b"
proof (induction a arbitrary: b rule: str_nat.induct)
  case (1 n)
  show ?case
  proof (cases "n < 10")
    case True
    then have n: "str_nat n = [digit n]"
      by (subst str_nat.simps) simp
    have "b < 10"
    proof (rule ccontr)
      assume "\<not> b < 10"
      then have "str_nat b = str_nat (b div 10) @ [digit (b mod 10)]"
        by (subst str_nat.simps) simp
      with n "1.prems" show False
        by (simp add: str_nat_nonempty)
    qed
    then have "str_nat b = [digit b]"
      by (subst str_nat.simps) simp
    with n "1.prems" True \<open>b < 10\<close> show ?thesis
      by (simp add: digit_inj)
  next
    case False
    then have n: "str_nat n = str_nat (n div 10) @ [digit (n mod 10)]"
      by (subst str_nat.simps) simp
    have b: "\<not> b < 10"
    proof
      assume "b < 10"
      then have "str_nat b = [digit b]"
        by (subst str_nat.simps) simp
      with n "1.prems" str_nat_nonempty [of "n div 10"] show False
        by simp
    qed
    then have "str_nat b = str_nat (b div 10) @ [digit (b mod 10)]"
      by (subst str_nat.simps) simp
    with n "1.prems" have eq: "str_nat (n div 10) = str_nat (b div 10)"
      and dg: "digit (n mod 10) = digit (b mod 10)"
      by simp_all
    from "1.IH" [OF False eq] have "n div 10 = b div 10" .
    moreover from dg have "n mod 10 = b mod 10"
      by (intro digit_inj) simp_all
    ultimately show ?thesis
      by (metis div_mult_mod_eq)
  qed
qed

lemma make_key_same_name: "make_key n t1 = make_key n t2 \<longleftrightarrow> t1 = t2"
  by (auto simp: make_key_def dest: str_nat_inj)

lemma str_nat_a: "str_nat 40234567890128 = ''40234567890128''"
  by (simp add: str_nat.simps digit_def)

lemma str_nat_b: "str_nat 140234567890128 = ''140234567890128''"
  by (simp add: str_nat.simps digit_def)

text \<open>
  C2. The key is the plain concatenation of the name and the decimal task identity, so
  two different (name, task) pairs can share a key: task \<open>task_a\<close> under the name
  \<open>db1\<close> and task \<open>task_b\<close> under the name \<open>db\<close>. After \<open>task_a\<close> pushes the
  handle 99 for \<open>db1\<close>, \<open>task_b\<close> resolving \<open>db\<close> gets 99 instead of its base
  connection 0.
\<close>

theorem key_collision:
  "(''db1'', current_task task_a) \<noteq> (''db'', current_task task_b) \<and>
   make_key ''db1'' (current_task task_a) = make_key ''db'' (current_task task_b) \<and>
   fst (get_connection task_b Map.empty (Some ''db'')) = Inr 0 \<and>
   fst (get_connection task_b (snd (push_transaction task_a ''db1'' 99 Map.empty)) (Some ''db''))
     = Inr 99"
  by (simp add: get_connection_def push_transaction_def dd_getitem_def make_key_def
        getitem_def str_nat_a str_nat_b task_a_def task_b_def current_task_id_def
        loop_running_def)

subsection \<open>Push and pop\<close>

text \<open>
  C5. Within a task (the loop is running), after pushing \<open>h1\<close> and then \<open>h2\<close> under
  the key of a name, \<open>get_connection\<close> for that name returns \<open>h2\<close>; one pop then
  succeeds and restores the map as it was after the first push, and \<open>get_connection\<close>
  returns \<open>h1\<close> again.
\<close>

theorem lifo_resolution:
  assumes "resolve_name (connections e) cn = Inr n" and "loop_running e"
  shows "\<exists>m1 m2. push_transaction e n h1 m = (Inr (), m1) \<and>
           push_transaction e n h2 m1 = (Inr (), m2) \<and>
           get_connection e m2 cn = (Inr h2, m2) \<and>
           pop_transaction e n m2 = (Inr (), m1) \<and>
           get_connection e m1 cn = (Inr h1, m1)"
proof -
  let ?k = "make_key n (current_task e)"
  let ?m1 = "m(?k \<mapsto> stack_of m ?k @ [h1])"
  let ?m2 = "m(?k \<mapsto> stack_of m ?k @ [h1, h2])"
  have s1: "stack_of ?m1 ?k = stack_of m ?k @ [h1]"
    and s2: "stack_of ?m2 ?k = stack_of m ?k @ [h1, h2]"
    by (simp_all add: stack_of_def)
  have p1: "push_transaction e n h1 m = (Inr (), ?m1)"
    by (simp add: push_transaction_eq [OF assms(2)])
  have p2: "push_transaction e n h2 ?m1 = (Inr (), ?m2)"
    by (simp add: push_transaction_eq [OF assms(2)] s1)
  have g2: "get_connection e ?m2 cn = (Inr h2, ?m2)"
    by (simp add: get_connection_running [OF assms] s2)
  have q: "pop_transaction e n ?m2 = (Inr (), ?m1)"
    using pop_transaction_nonempty [OF assms(2), of ?m2 n "stack_of m ?k @ [h1, h2]"]
    by (simp add: butlast_append)
  have g1: "get_connection e ?m1 cn = (Inr h1, ?m1)"
    by (simp add: get_connection_running [OF assms] s1)
  from p1 p2 g2 q g1 show ?thesis by blast
qed

theorem lifo_resolution_witness:
  "fst (get_connection e0
          (snd (push_transaction e0 ''default'' 11
             (snd (push_transaction e0 ''default'' 10 Map.empty)))) None) = Inr 11 \<and>
   fst (get_connection e0
          (snd (pop_transaction e0 ''default''
             (snd (push_transaction e0 ''default'' 11
                (snd (push_transaction e0 ''default'' 10 Map.empty)))))) None) = Inr 10"
proof -
  have r: "resolve_name (connections e0) None = Inr ''default''"
    by (simp add: e0_def infer_name_def)
  have l: "loop_running e0"
    by (simp add: e0_def loop_running_def)
  from lifo_resolution [OF r l, of 10 Map.empty 11] obtain m1 m2 where
    "push_transaction e0 ''default'' 10 Map.empty = (Inr (), m1)"
    "push_transaction e0 ''default'' 11 m1 = (Inr (), m2)"
    "get_connection e0 m2 None = (Inr 11, m2)"
    "pop_transaction e0 ''default'' m2 = (Inr (), m1)"
    "get_connection e0 m1 None = (Inr 10, m1)"
    by blast
  then show ?thesis by simp
qed

text \<open>
  C4. Within a task, \<open>pop_transaction\<close> removes the top handle of the stack under its
  key and deletes the key when the stack has become empty. Starting with the key absent
  (or bound to an empty stack, with at least one push), pushing any list of handles and
  popping as many times succeeds and leaves the key absent, and \<open>get_connection\<close> for
  that name then returns what the connection registry holds under it.
\<close>

theorem push_pop_balanced:
  assumes "loop_running e"
  shows "(\<forall>s. m (make_key n (current_task e)) = Some s \<and> s \<noteq> [] \<longrightarrow>
      pop_transaction e n m =
        (Inr (), if butlast s = [] then m(make_key n (current_task e) := None)
                 else m(make_key n (current_task e) \<mapsto> butlast s))) \<and>
   (m (make_key n (current_task e)) = None \<or>
    m (make_key n (current_task e)) = Some [] \<and> cs \<noteq> [] \<longrightarrow>
      fst (pushes e n cs m) = Inr () \<and>
      pops e n (length cs) (snd (pushes e n cs m)) =
        (Inr (), m(make_key n (current_task e) := None)) \<and>
      snd (pops e n (length cs) (snd (pushes e n cs m))) (make_key n (current_task e)) = None \<and>
      (resolve_name (connections e) cn = Inr n \<longrightarrow>
         fst (get_connection e (snd (pops e n (length cs) (snd (pushes e n cs m)))) cn) =
           getitem (connections e) n))"
proof -
  let ?k = "make_key n (current_task e)"
  have p: "fst (pushes e n cs m) = Inr () \<and>
      pops e n (length cs) (snd (pushes e n cs m)) = (Inr (), m(?k := None))"
    if "m ?k = None \<or> m ?k = Some [] \<and> cs \<noteq> []"
  proof (cases "cs = []")
    case True
    with that have "m ?k = None" by simp
    then have "m(?k := None) = m" by (simp add: fun_upd_idem)
    with True show ?thesis by simp
  next
    case False
    from that have "stack_of m ?k = []"
      by (auto simp: stack_of_def)
    then have "pushes e n cs m = (Inr (), m(?k \<mapsto> cs))"
      using pushes_nonempty [OF assms False, where n = n and m = m] by simp
    then show ?thesis
      using pops_stack [OF assms, where n = n and m = m and s = "[]" and cs = cs] False
      by simp
  qed
  have g: "fst (get_connection e (m(?k := None)) cn) = getitem (connections e) n"
    if "resolve_name (connections e) cn = Inr n"
    by (simp add: get_connection_running [OF that assms] stack_of_def)
  have q: "pop_transaction e n m =
        (Inr (), if butlast s = [] then m(?k := None) else m(?k \<mapsto> butlast s))"
    if "m ?k = Some s" and "s \<noteq> []" for s
    using that by (rule pop_transaction_nonempty [OF assms])
  show ?thesis
    using p g q by simp
qed

theorem push_pop_balanced_witness:
  "pops e0 ''default'' (length [10, 11, 12 :: nat])
       (snd (pushes e0 ''default'' [10, 11, 12] Map.empty)) = (Inr (), Map.empty) \<and>
   fst (get_connection e0
          (snd (pops e0 ''default'' (length [10, 11, 12 :: nat])
             (snd (pushes e0 ''default'' [10, 11, 12] Map.empty))))
          (Some ''default'')) = Inr 0"
proof -
  have l: "loop_running e0" and g: "getitem (connections e0) ''default'' = Inr 0"
    by (simp_all add: e0_def getitem_def loop_running_def)
  have r: "resolve_name (connections e0) (Some ''default'') = Inr ''default''"
    by simp
  show ?thesis
    using push_pop_balanced [OF l, where m = Map.empty and n = "''default''"
        and cs = "[10, 11, 12]" and cn = "Some ''default''"] g r
    by (auto simp del: pushes.simps pops.simps)
qed

text \<open>
  C9, as amended. Within a task, \<open>pop_transaction\<close> on a key that is absent raises
  \<open>IndexError\<close> and leaves the key bound to a new empty stack: the map has changed, and
  the deletion of lines 50 and 51 has not run. Popping again fails in the same way and
  keeps the entry; after the next push, the pop that empties the stack deletes the key
  again.
\<close>

theorem pop_transaction_absent:
  assumes "loop_running e" and "m (make_key n (current_task e)) = None"
  shows "pop_transaction e n m = (Inl IndexError, m(make_key n (current_task e) \<mapsto> [])) \<and>
         snd (pop_transaction e n m) \<noteq> m \<and>
         pop_transaction e n (m(make_key n (current_task e) \<mapsto> [])) =
           (Inl IndexError, m(make_key n (current_task e) \<mapsto> [])) \<and>
         push_transaction e n c (m(make_key n (current_task e) \<mapsto> [])) =
           (Inr (), m(make_key n (current_task e) \<mapsto> [c])) \<and>
         pop_transaction e n (m(make_key n (current_task e) \<mapsto> [c])) = (Inr (), m)"
proof -
  let ?k = "make_key n (current_task e)"
  have a: "pop_transaction e n m = (Inl IndexError, m(?k \<mapsto> []))"
    using assms by (simp add: pop_transaction_empty stack_of_def)
  have b: "pop_transaction e n (m(?k \<mapsto> [])) = (Inl IndexError, m(?k \<mapsto> []))"
    using pop_transaction_empty [OF assms(1), where m = "m(?k \<mapsto> [])" and n = n]
    by (simp add: stack_of_def)
  have "(m(?k \<mapsto> [])) ?k \<noteq> m ?k"
    using assms by simp
  then have c: "m(?k \<mapsto> []) \<noteq> m"
    by metis
  have d: "push_transaction e n c (m(?k \<mapsto> [])) = (Inr (), m(?k \<mapsto> [c]))"
    by (simp add: push_transaction_eq [OF assms(1)] stack_of_upd)
  have "m(?k := None) = m"
    using assms(2) by (simp add: fun_upd_idem)
  then have f: "pop_transaction e n (m(?k \<mapsto> [c])) = (Inr (), m)"
    using pop_transaction_last [OF assms(1), where m = "m(?k \<mapsto> [c])" and n = n and c = c]
    by simp
  from a b c d f show ?thesis by simp
qed

theorem pop_transaction_absent_witness:
  "pop_transaction e0 ''default'' (Map.empty :: nat tmap) =
     (Inl IndexError, [make_key ''default'' 7 \<mapsto> []]) \<and>
   pop_transaction e0 ''default'' [make_key ''default'' 7 \<mapsto> [10 :: nat]] =
     (Inr (), Map.empty)"
proof -
  have l: "loop_running e0" and k: "current_task e0 = 7"
    by (simp_all add: e0_def loop_running_def)
  have a: "(Map.empty :: nat tmap) (make_key ''default'' (current_task e0)) = None"
    by simp
  show ?thesis
    using pop_transaction_absent [OF l a, where c = 10] k by simp
qed

text \<open>
  C9 as stated fails in its last clause: the entry that the failing pop leaves is removed
  by the deletion of lines 50 and 51 as soon as a push is followed by a pop.
\<close>

theorem pop_transaction_absent_counterexample:
  "pop_transaction e0 ''default'' (Map.empty :: nat tmap) =
     (Inl IndexError, [make_key ''default'' 7 \<mapsto> []]) \<and>
   pop_transaction e0 ''default''
     (snd (push_transaction e0 ''default'' 10
        (snd (pop_transaction e0 ''default'' (Map.empty :: nat tmap))))) =
     (Inr (), Map.empty)"
  by (simp add: pop_transaction_def push_transaction_def dd_getitem_def e0_def Let_def
        current_task_id_def loop_running_def)

subsection \<open>The decorator\<close>







end
